theory Spec2Isabelle
  imports Complex_Main "HOL-Library.Sublist" "HOL-Library.Multiset"
begin

section \<open>The command predictor server (\<open>Private/predictor_server.py\<close>)\<close>

text \<open>
  The server keeps one \<open>CommandPredictor\<close> and answers JSON frames on a websocket.
  The transformer model, the TF-IDF vectorizer, \<open>numpy.argsort\<close> and sqlite are
  libraries: they enter the model as parameters (the record \<open>library\<close>), each with the
  shape its call has in the source. Exceptions are values of type \<open>error\<close>.
\<close>

subsection \<open>Values and errors\<close>

datatype json =
    JNull
  | JBool bool
  | JNum real
  | JStr string
  | JArr "json list"
  | JObj "(string \<times> json) list"

datatype error =
    JSONDecodeError
  | KeyError string
  | TypeError string
  | IndexError
  | ModelError string
  | VectorizerError string
  | DatabaseError string

text \<open>
  \<open>str(e)\<close>, the text the error envelope carries. A \<open>KeyError\<close> prints its key in
  quotes; the libraries' exceptions carry the text the library gave them, and the decoder's
  text stands for whichever position it reports.
\<close>

fun str_of :: "error \<Rightarrow> string" where
  "str_of JSONDecodeError = ''Expecting value''"
| "str_of (KeyError k) = [CHR 0x27] @ k @ [CHR 0x27]"
| "str_of (TypeError m) = m"
| "str_of IndexError = ''list index out of range''"
| "str_of (ModelError m) = m"
| "str_of (VectorizerError m) = m"
| "str_of (DatabaseError m) = m"

record candidate =
  command :: string
  score :: real

type_synonym row = "json \<times> json"

text \<open>
  The libraries. \<open>generate\<close> is tokenizer, \<open>model.generate\<close> and \<open>decode\<close> together: the
  decoded outputs for an input, or the exception raised. \<open>vec_fit\<close> is
  \<open>TfidfVectorizer.fit\<close>, which raises on a corpus without vocabulary. \<open>similarity v q d\<close>
  is the entry of \<open>(transform([q]) * transform(history).T).A[0]\<close> for the document \<open>d\<close>.
  \<open>argsort\<close> is \<open>numpy.argsort\<close>. \<open>db_fault\<close> says whether the sqlite insert of a row
  into the table fails.
\<close>

record 'v library =
  generate :: "string \<Rightarrow> error + string list"
  vec_fit :: "string list \<Rightarrow> error + 'v"
  similarity :: "'v \<Rightarrow> string \<Rightarrow> string \<Rightarrow> real"
  argsort :: "real list \<Rightarrow> nat list"
  db_fault :: "row list \<Rightarrow> row \<Rightarrow> error option"

text \<open>
  What \<open>numpy.argsort\<close> promises: a permutation of the indices along which the scores do
  not decrease. The order of equal scores is left to the sorting kind.
\<close>

definition is_argsort :: "real list \<Rightarrow> nat list \<Rightarrow> bool" where
  "is_argsort scores idxs \<longleftrightarrow>
     sort idxs = [0..<length scores] \<and> sorted (map (\<lambda>i. scores ! i) idxs)"

text \<open>A stable argsort, one instance of the library function.\<close>

definition argsort_stable :: "real list \<Rightarrow> nat list" where
  "argsort_stable scores = sort_key (\<lambda>i. scores ! i) [0..<length scores]"

text \<open>
  The mutable state: the predictor's vectorizer (\<open>None\<close> until the first fit) and the
  table \<open>command_history\<close> of \<open>commands.db\<close>, without its timestamp column.
\<close>

record 'v state =
  vectorizer :: "'v option"
  command_history :: "row list"

subsection \<open>\<open>CommandPredictor.predict_next_command\<close>\<close>

text \<open>The score given to every prediction of the model.\<close>

definition ml_candidate :: "string \<Rightarrow> candidate" where
  "ml_candidate pred = \<lparr>command = pred, score = 0.8\<rparr>"

text \<open>
  \<^verbatim>\<open>for pred in ml_predictions:
    if pred not in seen:
        combined_predictions.append({"command": pred, "score": 0.8})
        seen.add(pred)\<close>
\<close>

fun ml_loop :: "string list \<Rightarrow> candidate list \<times> string set \<Rightarrow> candidate list \<times> string set" where
  "ml_loop [] acc = acc"
| "ml_loop (pred # preds) (combined, seen) =
     (if pred \<notin> seen
      then ml_loop preds (combined @ [ml_candidate pred], insert pred seen)
      else ml_loop preds (combined, seen))"

text \<open>\<open>xs[-3:]\<close>: the last three elements, or all of them when there are fewer.\<close>

definition last_three :: "'a list \<Rightarrow> 'a list" where
  "last_three xs = drop (length xs - 3) xs"

text \<open>
  \<^verbatim>\<open>for idx in np.argsort(scores)[-3:]:
    if history[idx] not in seen:
        combined_predictions.append({"command": history[idx], "score": float(scores[idx])})
        seen.add(history[idx])\<close>
  An index outside the list raises \<open>IndexError\<close>.
\<close>

fun history_loop :: "string list \<Rightarrow> real list \<Rightarrow> nat list \<Rightarrow>
    candidate list \<times> string set \<Rightarrow> error + candidate list \<times> string set" where
  "history_loop history scores [] acc = Inr acc"
| "history_loop history scores (idx # idxs) (combined, seen) =
     (if idx < length history then
        (if history ! idx \<notin> seen then
           (if idx < length scores then
              history_loop history scores idxs
                (combined @ [\<lparr>command = history ! idx, score = scores ! idx\<rparr>],
                 insert (history ! idx) seen)
            else Inl IndexError)
         else history_loop history scores idxs (combined, seen))
      else Inl IndexError)"

text \<open>
  The method returns its result (the list, or the exception raised) and the state it
  leaves. A failed fit leaves the field as it was: the vectorizer is read only after a
  fit of the same call.
\<close>

definition predict_next_command ::
  "'v library \<Rightarrow> 'v state \<Rightarrow> string \<Rightarrow> string list \<Rightarrow> (error + candidate list) \<times> 'v state" where
  "predict_next_command L st current_input history =
     (case generate L current_input of
        Inl e \<Rightarrow> (Inl e, st)
      | Inr outputs \<Rightarrow>
          let ml_predictions = filter (prefix current_input) outputs in
          if history \<noteq> [] then
            (case vec_fit L history of
               Inl e \<Rightarrow> (Inl e, st)
             | Inr v \<Rightarrow>
                 let st' = st\<lparr>vectorizer := Some v\<rparr>;
                     scores = map (similarity L v current_input) history
                 in (case history_loop history scores (last_three (argsort L scores))
                            (ml_loop ml_predictions ([], {})) of
                       Inl e \<Rightarrow> (Inl e, st')
                     | Inr (combined_predictions, seen) \<Rightarrow> (Inr combined_predictions, st')))
          else (Inr (map ml_candidate ml_predictions), st))"

subsection \<open>\<open>CommandPredictor.record_command\<close>\<close>

text \<open>
  sqlite binds \<open>None\<close>, numbers and strings; a list or a dict raises. A failure inside
  \<open>with sqlite3.connect(...)\<close> rolls the insert back.
\<close>

fun bindable :: "json \<Rightarrow> bool" where
  "bindable (JArr _) = False"
| "bindable (JObj _) = False"
| "bindable _ = True"

definition record_command ::
  "'v library \<Rightarrow> 'v state \<Rightarrow> json \<Rightarrow> json \<Rightarrow> (error + unit) \<times> 'v state" where
  "record_command L st cmd context =
     (if bindable cmd \<and> bindable context then
        (case db_fault L (command_history st) (cmd, context) of
           Some e \<Rightarrow> (Inl e, st)
         | None \<Rightarrow> (Inr (), st\<lparr>command_history := command_history st @ [(cmd, context)]\<rparr>))
      else (Inl (DatabaseError ''Error binding parameter''), st))"

subsection \<open>\<open>websocket_endpoint\<close>\<close>

datatype envelope =
    Predictions "candidate list"
  | Recorded
  | ErrorEnvelope string

text \<open>
  A received text frame, as \<open>json.loads\<close> sees it: rejected, or parsed to a value.
\<close>

datatype frame = Invalid | Parsed json

text \<open>\<open>json.loads\<close> keeps the last value of a repeated key.\<close>

definition dict_get :: "(string \<times> json) list \<Rightarrow> string \<Rightarrow> json option" where
  "dict_get kvs k = map_of (rev kvs) k"

definition dict_get_default :: "(string \<times> json) list \<Rightarrow> string \<Rightarrow> json \<Rightarrow> json" where
  "dict_get_default kvs k d = (case dict_get kvs k of None \<Rightarrow> d | Some v \<Rightarrow> v)"

text \<open>Python's truth value of a decoded JSON value (\<open>if history:\<close>).\<close>

fun truthy :: "json \<Rightarrow> bool" where
  "truthy JNull = False"
| "truthy (JBool b) = b"
| "truthy (JNum x) = (x \<noteq> 0)"
| "truthy (JStr s) = (s \<noteq> [])"
| "truthy (JArr xs) = (xs \<noteq> [])"
| "truthy (JObj kvs) = (kvs \<noteq> [])"

fun as_strings :: "json list \<Rightarrow> string list option" where
  "as_strings [] = Some []"
| "as_strings (JStr s # xs) = (case as_strings xs of None \<Rightarrow> None | Some ss \<Rightarrow> Some (s # ss))"
| "as_strings (_ # xs) = None"

text \<open>
  The call \<open>predictor.predict_next_command(request["current_input"], request.get("history", []))\<close>
  on decoded JSON values. The method is written for a string and a list of strings.
  An input that is not a string makes the tokenizer raise; a history that is false
  takes the branch of the empty history; any other history that is not a list of strings
  makes the vectorizer raise, after the model has run.
\<close>

definition predict_call ::
  "'v library \<Rightarrow> 'v state \<Rightarrow> json \<Rightarrow> json \<Rightarrow> (error + candidate list) \<times> 'v state" where
  "predict_call L st current_input history =
     (case current_input of
        JStr s \<Rightarrow>
          (if \<not> truthy history then predict_next_command L st s []
           else (case history of
                   JArr xs \<Rightarrow>
                     (case as_strings xs of
                        Some h \<Rightarrow> predict_next_command L st s h
                      | None \<Rightarrow>
                          (case generate L s of
                             Inl e \<Rightarrow> (Inl e, st)
                           | Inr _ \<Rightarrow> (Inl (TypeError ''history''), st)))
                 | _ \<Rightarrow>
                     (case generate L s of
                        Inl e \<Rightarrow> (Inl e, st)
                      | Inr _ \<Rightarrow> (Inl (TypeError ''history''), st))))
      | _ \<Rightarrow> (Inl (TypeError ''current_input''), st))"

text \<open>
  The body of the \<open>while True\<close> loop for one received frame: the exception raised, or
  the envelope sent, if one is sent.
  \<^verbatim>\<open>request = json.loads(data)
if request["type"] == "predict":
    ... send_json({"type": "predictions", "predictions": predictions})
elif request["type"] == "record":
    ... send_json({"type": "recorded", "status": "success"})\<close>
\<close>

definition handle_frame ::
  "'v library \<Rightarrow> 'v state \<Rightarrow> frame \<Rightarrow> (error + envelope option) \<times> 'v state" where
  "handle_frame L st fr =
     (case fr of
        Invalid \<Rightarrow> (Inl JSONDecodeError, st)
      | Parsed (JObj request) \<Rightarrow>
          (case dict_get request ''type'' of
             None \<Rightarrow> (Inl (KeyError ''type''), st)
           | Some t \<Rightarrow>
               if t = JStr ''predict'' then
                 (case dict_get request ''current_input'' of
                    None \<Rightarrow> (Inl (KeyError ''current_input''), st)
                  | Some ci \<Rightarrow>
                      (case predict_call L st ci (dict_get_default request ''history'' (JArr [])) of
                         (Inl e, st') \<Rightarrow> (Inl e, st')
                       | (Inr predictions, st') \<Rightarrow> (Inr (Some (Predictions predictions)), st')))
               else if t = JStr ''record'' then
                 (case dict_get request ''command'' of
                    None \<Rightarrow> (Inl (KeyError ''command''), st)
                  | Some cmd \<Rightarrow>
                      (case record_command L st cmd (dict_get_default request ''context'' (JStr [])) of
                         (Inl e, st') \<Rightarrow> (Inl e, st')
                       | (Inr _, st') \<Rightarrow> (Inr (Some Recorded), st')))
               else (Inr None, st))
      | Parsed _ \<Rightarrow> (Inl (TypeError ''request''), st))"

text \<open>
  The session: the frames the client sends, in order, and the envelopes it gets back.
  \<^verbatim>\<open>try:
    while True: ...
except Exception as e:
    await websocket.send_json({"type": "error", "message": str(e)})\<close>
  The end of the list is the client's disconnect, when nothing more reaches the client.
\<close>

fun websocket_endpoint ::
  "'v library \<Rightarrow> 'v state \<Rightarrow> frame list \<Rightarrow> envelope list \<times> 'v state" where
  "websocket_endpoint L st [] = ([], st)"
| "websocket_endpoint L st (fr # frs) =
     (case handle_frame L st fr of
        (Inl e, st') \<Rightarrow> ([ErrorEnvelope (str_of e)], st')
      | (Inr reply, st') \<Rightarrow>
          (case websocket_endpoint L st' frs of
             (sent, st'') \<Rightarrow> ((case reply of None \<Rightarrow> [] | Some env \<Rightarrow> [env]) @ sent, st'')))"


subsection \<open>Request frames and a stubbed set of libraries\<close>

text \<open>The two request frames of the protocol, and a frame of a type it does not know.\<close>

definition predict_frame :: "string \<Rightarrow> string list \<Rightarrow> frame" where
  "predict_frame current_input history =
     Parsed (JObj [(''type'', JStr ''predict''), (''current_input'', JStr current_input),
                   (''history'', JArr (map JStr history))])"

definition record_frame :: "string \<Rightarrow> string \<Rightarrow> frame" where
  "record_frame cmd context =
     Parsed (JObj [(''type'', JStr ''record''), (''command'', JStr cmd), (''context'', JStr context)])"

definition unknown_frame :: frame where
  "unknown_frame = Parsed (JObj [(''type'', JStr ''unknown'')])"

text \<open>
  Stubs for the libraries, used to run the server on concrete requests: a model that
  proposes \<open>git status\<close> twice and \<open>python\<close> once, a vectorizer that keeps its corpus,
  fixed similarities, a stable argsort and a database that accepts every row.
\<close>

definition stub_library :: "string list library" where
  "stub_library =
     \<lparr>generate = (\<lambda>s. Inr [''git status'', ''python'', ''git status'']),
      vec_fit = (\<lambda>h. Inr h),
      similarity = (\<lambda>v q d. if d = ''git status'' then 0.9 else if d = ''git commit'' then 0.5 else 0),
      argsort = argsort_stable,
      db_fault = (\<lambda>t r. None)\<rparr>"

definition failing_model :: "string list library" where
  "failing_model = stub_library\<lparr>generate := (\<lambda>s. Inl (ModelError ''generation failed''))\<rparr>"

definition silent_model :: "string list library" where
  "silent_model = stub_library\<lparr>generate := (\<lambda>s. Inr [])\<rparr>"

definition failing_database :: "string list library" where
  "failing_database = stub_library\<lparr>db_fault := (\<lambda>t r. Some (DatabaseError ''database is locked''))\<rparr>"

definition fresh_state :: "string list state" where
  "fresh_state = \<lparr>vectorizer = None, command_history = []\<rparr>"

definition git_history :: "string list" where
  "git_history = [''git status'', ''git commit'', ''ls'']"

section \<open>Properties\<close>

subsection \<open>Subsequences, the last three, argsort\<close>

lemma subseq_sorted_wrt: "subseq xs ys \<Longrightarrow> sorted_wrt P ys \<Longrightarrow> sorted_wrt P xs"
proof (induction rule: list_emb.induct)
  case (list_emb_Cons xs ys y)
  then show ?case by simp
next
  case (list_emb_Cons2 x y xs ys)
  then show ?case by (auto dest: list_emb_set)
qed simp

lemma subseq_subset: "subseq xs ys \<Longrightarrow> set xs \<subseteq> set ys"
  by (auto dest: list_emb_set)

lemma subseq_last_three: "subseq (last_three xs) xs"
  unfolding last_three_def
  by (intro sublist_imp_subseq suffix_imp_sublist suffix_drop)

lemma length_last_three: "length (last_three xs) \<le> 3"
  by (simp add: last_three_def)

lemma last_three_short: "length xs \<le> 3 \<Longrightarrow> last_three xs = xs"
  by (simp add: last_three_def)

lemma is_argsort_set: "is_argsort scores idxs \<Longrightarrow> set idxs = {0..<length scores}"
proof -
  assume "is_argsort scores idxs"
  then have "sort idxs = [0..<length scores]" by (simp add: is_argsort_def)
  then have "set (sort idxs) = set [0..<length scores]" by simp
  then show ?thesis by simp
qed

lemma is_argsort_length: "is_argsort scores idxs \<Longrightarrow> length idxs = length scores"
proof -
  assume "is_argsort scores idxs"
  then have "sort idxs = [0..<length scores]" by (simp add: is_argsort_def)
  then have "length (sort idxs) = length [0..<length scores]" by simp
  then show ?thesis by simp
qed

lemma is_argsort_sorted: "is_argsort scores idxs \<Longrightarrow> sorted (map (\<lambda>i. scores ! i) idxs)"
  by (simp add: is_argsort_def)

lemma argsort_stable_is_argsort: "is_argsort scores (argsort_stable scores)"
  unfolding is_argsort_def argsort_stable_def
  by (simp add: properties_for_sort)

lemma upt_3: "[0..<3] = [0, 1, 2]"
  by (simp add: upt_rec)

subsection \<open>The two loops of the merge\<close>

text \<open>
  The first loop appends the predictions not seen before, each once, in their order.
\<close>

lemma ml_loop_result:
  "\<exists>G. ml_loop preds (combined, seen) = (combined @ map ml_candidate G, seen \<union> set preds)
       \<and> set G = set preds - seen \<and> distinct G \<and> subseq G preds"
proof (induction preds arbitrary: combined seen)
  case Nil
  then show ?case by (intro exI[of _ "[]"]) simp
next
  case (Cons p ps)
  show ?case
  proof (cases "p \<in> seen")
    case True
    from Cons.IH[of combined seen] obtain G where
      "ml_loop ps (combined, seen) = (combined @ map ml_candidate G, seen \<union> set ps)"
      "set G = set ps - seen" "distinct G" "subseq G ps" by blast
    with True show ?thesis by (intro exI[of _ G]) (auto simp: insert_absorb)
  next
    case False
    from Cons.IH[of "combined @ [ml_candidate p]" "insert p seen"] obtain G where
      G: "ml_loop ps (combined @ [ml_candidate p], insert p seen)
            = ((combined @ [ml_candidate p]) @ map ml_candidate G, insert p seen \<union> set ps)"
      "set G = set ps - insert p seen" "distinct G" "subseq G ps" by blast
    with False show ?thesis by (intro exI[of _ "p # G"]) auto
  qed
qed

text \<open>
  The second loop, on indices inside the history: it raises nothing and appends, in the
  order of the indices, the entries not seen before, each once, with its own score.
\<close>

lemma history_loop_result:
  assumes "\<forall>i \<in> set idxs. i < length history" "length scores = length history"
  shows "\<exists>J. history_loop history scores idxs (combined, seen)
            = Inr (combined @ map (\<lambda>i. \<lparr>command = history ! i, score = scores ! i\<rparr>) J,
                   seen \<union> (\<lambda>i. history ! i) ` set idxs)
       \<and> subseq J idxs \<and> distinct (map (\<lambda>i. history ! i) J)
       \<and> (\<lambda>i. history ! i) ` set J = (\<lambda>i. history ! i) ` set idxs - seen"
  using assms
proof (induction idxs arbitrary: combined seen)
  case Nil
  then show ?case by (intro exI[of _ "[]"]) simp
next
  case (Cons i js)
  have i: "i < length history" "i < length scores" using Cons.prems by auto
  have rest: "\<forall>i \<in> set js. i < length history" using Cons.prems by auto
  show ?case
  proof (cases "history ! i \<in> seen")
    case True
    from Cons.IH[OF rest Cons.prems(2), of combined seen] obtain J where
      "history_loop history scores js (combined, seen)
            = Inr (combined @ map (\<lambda>i. \<lparr>command = history ! i, score = scores ! i\<rparr>) J,
                   seen \<union> (\<lambda>i. history ! i) ` set js)"
      "subseq J js" "distinct (map (\<lambda>i. history ! i) J)"
      "(\<lambda>i. history ! i) ` set J = (\<lambda>i. history ! i) ` set js - seen" by blast
    with True i show ?thesis by (intro exI[of _ J]) (auto simp: insert_absorb)
  next
    case False
    from Cons.IH[OF rest Cons.prems(2),
        of "combined @ [\<lparr>command = history ! i, score = scores ! i\<rparr>]" "insert (history ! i) seen"]
    obtain J where J:
      "history_loop history scores js
          (combined @ [\<lparr>command = history ! i, score = scores ! i\<rparr>], insert (history ! i) seen)
            = Inr ((combined @ [\<lparr>command = history ! i, score = scores ! i\<rparr>])
                     @ map (\<lambda>i. \<lparr>command = history ! i, score = scores ! i\<rparr>) J,
                   insert (history ! i) seen \<union> (\<lambda>i. history ! i) ` set js)"
      "subseq J js" "distinct (map (\<lambda>i. history ! i) J)"
      "(\<lambda>i. history ! i) ` set J = (\<lambda>i. history ! i) ` set js - insert (history ! i) seen" by blast
    with False i show ?thesis by (intro exI[of _ "i # J"]) auto
  qed
qed

text \<open>Whatever the indices are, a loop that returns has appended entries of the history.\<close>

lemma history_loop_Inr:
  "history_loop history scores idxs (combined, seen) = Inr (combined', seen') \<Longrightarrow>
   \<exists>hs. combined' = combined @ hs \<and> (\<forall>c \<in> set hs. command c \<in> set history)"
proof (induction idxs arbitrary: combined seen)
  case Nil
  then show ?case by simp
next
  case (Cons i js)
  show ?case
  proof (cases "i < length history \<and> history ! i \<notin> seen")
    case True
    with Cons.prems have
      "history_loop history scores js
         (combined @ [\<lparr>command = history ! i, score = scores ! i\<rparr>], insert (history ! i) seen)
       = Inr (combined', seen')"
      by (simp split: if_splits)
    from Cons.IH[OF this] obtain hs where
      "combined' = (combined @ [\<lparr>command = history ! i, score = scores ! i\<rparr>]) @ hs"
      "\<forall>c \<in> set hs. command c \<in> set history" by blast
    with True show ?thesis
      by (intro exI[of _ "\<lparr>command = history ! i, score = scores ! i\<rparr> # hs"]) simp
  next
    case False
    with Cons.prems have "history_loop history scores js (combined, seen) = Inr (combined', seen')"
      by (simp split: if_splits)
    from Cons.IH[OF this] show ?thesis .
  qed
qed

subsection \<open>The merge on a history that is not empty\<close>

text \<open>
  When the model and the fit succeed and argsort keeps its promise, the method returns
  the distinct predictions \<open>G\<close> of the model that extend the input, then the entries at
  the indices \<open>J\<close>, taken in order from the last three of the argsort.
\<close>

lemma predict_nonempty_result:
  assumes "history \<noteq> []" "generate L ci = Inr outputs" "vec_fit L history = Inr v"
    and "is_argsort (map (similarity L v ci) history)
           (argsort L (map (similarity L v ci) history))"
  shows "\<exists>G J. predict_next_command L st ci history =
           (Inr (map ml_candidate G
                 @ map (\<lambda>i. \<lparr>command = history ! i, score = similarity L v ci (history ! i)\<rparr>) J),
            st\<lparr>vectorizer := Some v\<rparr>)
       \<and> set G = {d \<in> set outputs. prefix ci d} \<and> distinct G
       \<and> subseq G (filter (prefix ci) outputs)
       \<and> subseq J (last_three (argsort L (map (similarity L v ci) history)))
       \<and> distinct (map (\<lambda>i. history ! i) J)
       \<and> (\<lambda>i. history ! i) ` set J
           = (\<lambda>i. history ! i) ` set (last_three (argsort L (map (similarity L v ci) history))) - set G"
proof -
  define scores where "scores = map (similarity L v ci) history"
  define idxs where "idxs = last_three (argsort L scores)"
  define ml where "ml = filter (prefix ci) outputs"
  have ok: "is_argsort scores (argsort L scores)" using assms(4) by (simp add: scores_def)
  have "set idxs \<subseteq> set (argsort L scores)"
    unfolding idxs_def by (rule subseq_subset[OF subseq_last_three])
  then have inrange: "\<forall>i \<in> set idxs. i < length history"
    using is_argsort_set[OF ok] by (auto simp: scores_def)
  have len: "length scores = length history" by (simp add: scores_def)
  from ml_loop_result[of ml "[]" "{}"] obtain G where
    G: "ml_loop ml ([], {}) = (map ml_candidate G, set ml)"
       "set G = set ml" "distinct G" "subseq G ml" by auto
  from history_loop_result[OF inrange len, of "map ml_candidate G" "set ml"] obtain J where
    J: "history_loop history scores idxs (map ml_candidate G, set ml)
          = Inr (map ml_candidate G @ map (\<lambda>i. \<lparr>command = history ! i, score = scores ! i\<rparr>) J,
                 set ml \<union> (\<lambda>i. history ! i) ` set idxs)"
       "subseq J idxs" "distinct (map (\<lambda>i. history ! i) J)"
       "(\<lambda>i. history ! i) ` set J = (\<lambda>i. history ! i) ` set idxs - set ml" by blast
  have "set J \<subseteq> set idxs" by (rule subseq_subset[OF J(2)])
  with inrange have "\<forall>i \<in> set J. i < length history" by auto
  then have same: "map (\<lambda>i. \<lparr>command = history ! i, score = scores ! i\<rparr>) J
      = map (\<lambda>i. \<lparr>command = history ! i, score = similarity L v ci (history ! i)\<rparr>) J"
    by (simp add: scores_def)
  have run: "predict_next_command L st ci history =
      (Inr (map ml_candidate G @ map (\<lambda>i. \<lparr>command = history ! i, score = scores ! i\<rparr>) J),
       st\<lparr>vectorizer := Some v\<rparr>)"
    using assms(1-3) G(1) J(1)
    by (simp add: predict_next_command_def Let_def scores_def[symmetric] idxs_def[symmetric]
        ml_def[symmetric])
  show ?thesis
    using run same G(2-4) J(2-4)
    by (intro exI[of _ G] exI[of _ J]) (auto simp: ml_def idxs_def scores_def)
qed

subsection \<open>First occurrences\<close>

text \<open>
  Both loops keep a command at its first occurrence only. For a list \<open>xs\<close> that is
  \<open>rev (remdups (rev xs))\<close>, since \<open>remdups\<close> keeps the last occurrence.
\<close>

lemma remdups_snoc:
  "remdups (xs @ [c]) = remdups (filter (\<lambda>x. x \<noteq> c) xs) @ [c]"
  by (induction xs) auto

lemma first_occurrence_Cons:
  "rev (remdups (rev (c # ys))) = c # rev (remdups (rev (filter (\<lambda>x. x \<noteq> c) ys)))"
  by (simp add: remdups_snoc rev_filter)

lemma ml_loop_commands:
  "fst (ml_loop preds (combined, seen))
     = combined @ map ml_candidate (rev (remdups (rev (filter (\<lambda>p. p \<notin> seen) preds))))"
proof (induction preds arbitrary: combined seen)
  case Nil
  then show ?case by simp
next
  case (Cons p ps)
  show ?case
  proof (cases "p \<in> seen")
    case True
    then show ?thesis using Cons.IH[of combined seen] by simp
  next
    case False
    have "rev (remdups (rev (filter (\<lambda>x. x \<notin> seen) (p # ps))))
        = p # rev (remdups (rev (filter (\<lambda>x. x \<notin> insert p seen) ps)))"
      using False by (simp add: first_occurrence_Cons conj_commute del: remdups.simps rev.simps)
    then show ?thesis
      using False Cons.IH[of "combined @ [ml_candidate p]" "insert p seen"] by simp
  qed
qed

lemma history_loop_commands:
  "history_loop history scores idxs (combined, seen) = Inr (combined', seen') \<Longrightarrow>
   map command combined' = map command combined
     @ rev (remdups (rev (filter (\<lambda>c. c \<notin> seen) (map (\<lambda>i. history ! i) idxs))))"
proof (induction idxs arbitrary: combined seen)
  case Nil
  then show ?case by simp
next
  case (Cons i js)
  show ?case
  proof (cases "history ! i \<in> seen")
    case True
    with Cons.prems have "history_loop history scores js (combined, seen) = Inr (combined', seen')"
      by (simp split: if_splits)
    from Cons.IH[OF this] True show ?thesis by simp
  next
    case False
    let ?c = "history ! i"
    let ?ys = "map (\<lambda>i. history ! i) js"
    from False Cons.prems have
      "history_loop history scores js
         (combined @ [\<lparr>command = ?c, score = scores ! i\<rparr>], insert ?c seen)
       = Inr (combined', seen')"
      by (simp split: if_splits)
    from Cons.IH[OF this] have ih: "map command combined' = map command combined @ [?c]
        @ rev (remdups (rev (filter (\<lambda>x. x \<notin> insert ?c seen) ?ys)))"
      by simp
    have "rev (remdups (rev (filter (\<lambda>x. x \<notin> seen) (map (\<lambda>i. history ! i) (i # js)))))
        = ?c # rev (remdups (rev (filter (\<lambda>x. x \<notin> insert ?c seen) ?ys)))"
      using False by (simp add: first_occurrence_Cons conj_commute del: remdups.simps rev.simps)
    with ih show ?thesis by simp
  qed
qed

lemma map_command_ml_candidate: "map command (map ml_candidate G) = G"
  by (induction G) (simp_all add: ml_candidate_def)

lemma upt_4: "[0..<4] = [0, 1, 2, 3]"
  by (simp add: upt_rec)

subsection \<open>The order of the appended history entries\<close>

text \<open>
  C1, as stated, at two inputs. At the input \<open>git\<close> with the history \<open>git status\<close>,
  \<open>git commit\<close>, \<open>ls\<close>: the model's \<open>git status\<close> comes first, then \<open>ls\<close> with
  similarity 0 before \<open>git commit\<close> with similarity 0.5, so the appended entries are
  not in descending order of similarity. At four entries of equal similarity, with an
  argsort that leaves equal scores in the order of their indices: the last three are
  appended, and the earliest-recorded entry is the one left out.
\<close>

theorem history_order_descending_counterexample:
  "fst (predict_next_command stub_library fresh_state ''git '' git_history)
     = Inr (map ml_candidate [''git status'']
            @ [\<lparr>command = ''ls'', score = 0\<rparr>, \<lparr>command = ''git commit'', score = 0.5\<rparr>])
   \<and> \<not> sorted (rev (map score [\<lparr>command = ''ls'', score = 0\<rparr>, \<lparr>command = ''git commit'', score = 0.5\<rparr>]))
   \<and> fst (predict_next_command silent_model fresh_state ''cd '' [''cd a'', ''cd b'', ''cd c'', ''cd d''])
     = Inr [\<lparr>command = ''cd b'', score = 0\<rparr>, \<lparr>command = ''cd c'', score = 0\<rparr>,
            \<lparr>command = ''cd d'', score = 0\<rparr>]
   \<and> \<lparr>command = ''cd a'', score = 0\<rparr>
       \<notin> set [\<lparr>command = ''cd b'', score = 0\<rparr>, \<lparr>command = ''cd c'', score = 0\<rparr>,
                \<lparr>command = ''cd d'', score = 0\<rparr>]"
  by (simp add: predict_next_command_def stub_library_def silent_model_def fresh_state_def
      git_history_def argsort_stable_def last_three_def ml_candidate_def upt_3 upt_4)

text \<open>
  C1, amended. For a history that is not empty, the returned list is the model's
  candidates, in their order and each at its first occurrence, followed by the selected
  history entries. The selected entries are those at the last three indices of the
  argsort; each of them whose command is not yet in the list is appended, once, with
  its own similarity as score, in the order of those indices. So the appended entries
  are in ascending order of similarity, the most similar one last. Where similarities
  are equal, the selection and the order are those of the argsort.
\<close>

theorem history_appended_ascending:
  assumes "history \<noteq> []" "generate L ci = Inr outputs" "vec_fit L history = Inr v"
    and "is_argsort (map (similarity L v ci) history)
           (argsort L (map (similarity L v ci) history))"
  shows "\<exists>G J hs. fst (predict_next_command L st ci history) = Inr (map ml_candidate G @ hs)
       \<and> G = rev (remdups (rev (filter (prefix ci) outputs)))
       \<and> set G = {d \<in> set outputs. prefix ci d}
       \<and> hs = map (\<lambda>i. \<lparr>command = history ! i, score = similarity L v ci (history ! i)\<rparr>) J
       \<and> subseq J (last_three (argsort L (map (similarity L v ci) history)))
       \<and> distinct (map (\<lambda>i. history ! i) J)
       \<and> (\<lambda>i. history ! i) ` set J
           = (\<lambda>i. history ! i) ` set (last_three (argsort L (map (similarity L v ci) history)))
             - set G
       \<and> map command hs
           = rev (remdups (rev (filter (\<lambda>c. c \<notin> set G)
               (map (\<lambda>i. history ! i)
                 (last_three (argsort L (map (similarity L v ci) history)))))))
       \<and> (\<forall>i \<in> set (last_three (argsort L (map (similarity L v ci) history))).
             history ! i \<notin> set G \<longrightarrow>
             \<lparr>command = history ! i, score = similarity L v ci (history ! i)\<rparr> \<in> set hs)
       \<and> sorted (map score hs)"
proof -
  define scores where "scores = map (similarity L v ci) history"
  define idxs where "idxs = last_three (argsort L scores)"
  define ml where "ml = filter (prefix ci) outputs"
  define cand where
    "cand = (\<lambda>i. \<lparr>command = history ! i, score = similarity L v ci (history ! i)\<rparr>)"
  have ok: "is_argsort scores (argsort L scores)" using assms(4) by (simp add: scores_def)
  have sub: "subseq idxs (argsort L scores)" unfolding idxs_def by (rule subseq_last_three)
  then have "set idxs \<subseteq> set (argsort L scores)" by (rule subseq_subset)
  then have inrange: "\<forall>i \<in> set idxs. i < length history"
    using is_argsort_set[OF ok] by (auto simp: scores_def)
  have len: "length scores = length history" by (simp add: scores_def)
  \<comment> \<open>the first loop\<close>
  from ml_loop_result[of ml "[]" "{}"] obtain G where
    G: "ml_loop ml ([], {}) = (map ml_candidate G, set ml)" "set G = set ml" by auto
  have "map ml_candidate G = map ml_candidate (rev (remdups (rev ml)))"
    using ml_loop_commands[of ml "[]" "{}"] G(1) by simp
  then have "map command (map ml_candidate G)
      = map command (map ml_candidate (rev (remdups (rev ml))))" by simp
  then have Gexact: "G = rev (remdups (rev ml))" by (simp only: map_command_ml_candidate)
  \<comment> \<open>the second loop\<close>
  from history_loop_result[OF inrange len, of "map ml_candidate G" "set ml"] obtain J where
    J: "history_loop history scores idxs (map ml_candidate G, set ml)
          = Inr (map ml_candidate G @ map (\<lambda>i. \<lparr>command = history ! i, score = scores ! i\<rparr>) J,
                 set ml \<union> (\<lambda>i. history ! i) ` set idxs)"
       "subseq J idxs" "distinct (map (\<lambda>i. history ! i) J)"
       "(\<lambda>i. history ! i) ` set J = (\<lambda>i. history ! i) ` set idxs - set ml" by blast
  have "set J \<subseteq> set idxs" by (rule subseq_subset[OF J(2)])
  with inrange have Jrange: "\<forall>i \<in> set J. i < length history" by auto
  then have same: "map (\<lambda>i. \<lparr>command = history ! i, score = scores ! i\<rparr>) J = map cand J"
    by (simp add: scores_def cand_def)
  have loop: "history_loop history scores idxs (map ml_candidate G, set ml)
      = Inr (map ml_candidate G @ map cand J, set ml \<union> (\<lambda>i. history ! i) ` set idxs)"
    using J(1) same by simp
  have "map command (map ml_candidate G @ map cand J) = map command (map ml_candidate G)
      @ rev (remdups (rev (filter (\<lambda>c. c \<notin> set ml) (map (\<lambda>i. history ! i) idxs))))"
    by (rule history_loop_commands[OF loop])
  then have cmds: "map command (map cand J)
      = rev (remdups (rev (filter (\<lambda>c. c \<notin> set G) (map (\<lambda>i. history ! i) idxs))))"
    using G(2) by simp
  have run: "fst (predict_next_command L st ci history) = Inr (map ml_candidate G @ map cand J)"
    using assms(1-3) G(1) loop
    by (simp add: predict_next_command_def Let_def scores_def[symmetric] idxs_def[symmetric]
        ml_def[symmetric])
  \<comment> \<open>every selected entry that is new is appended\<close>
  have appended: "\<forall>i \<in> set idxs. history ! i \<notin> set G \<longrightarrow> cand i \<in> set (map cand J)"
  proof (intro ballI impI)
    fix i assume "i \<in> set idxs" "history ! i \<notin> set G"
    then have "history ! i \<in> (\<lambda>i. history ! i) ` set J" using J(4) G(2) by auto
    then obtain j where j: "j \<in> set J" "history ! j = history ! i" by auto
    then have "cand j = cand i" by (simp add: cand_def)
    moreover have "cand j \<in> set (map cand J)" using j(1) by simp
    ultimately show "cand i \<in> set (map cand J)" by simp
  qed
  \<comment> \<open>the scores ascend\<close>
  have "subseq J (argsort L scores)"
    using J(2) sub subseq_order.order_trans by blast
  then have "subseq (map (\<lambda>i. scores ! i) J) (map (\<lambda>i. scores ! i) (argsort L scores))"
    by (rule subseq_map)
  then have "sorted (map (\<lambda>i. scores ! i) J)"
    using is_argsort_sorted[OF ok] by (rule subseq_sorted_wrt)
  moreover have "map (\<lambda>i. scores ! i) J = map score (map cand J)"
    using Jrange by (simp add: scores_def cand_def)
  ultimately have asc: "sorted (map score (map cand J))" by simp
  have Gset: "set G = {d \<in> set outputs. prefix ci d}" using G(2) by (simp add: ml_def)
  have img: "(\<lambda>i. history ! i) ` set J = (\<lambda>i. history ! i) ` set idxs - set G"
    using J(4) G(2) by simp
  note facts = run Gexact Gset J(2,3) img cmds appended asc
  note f = facts[unfolded ml_def idxs_def scores_def cand_def]
  show ?thesis
    apply (rule exI[of _ G], rule exI[of _ J])
    apply (rule exI[of _ "map (\<lambda>i. \<lparr>command = history ! i, score = similarity L v ci (history ! i)\<rparr>) J"])
    apply (intro conjI)
    apply (rule f refl)+
    done
qed

theorem history_appended_ascending_witness:
  "git_history \<noteq> [] \<and> generate stub_library ''git '' = Inr [''git status'', ''python'', ''git status'']
   \<and> vec_fit stub_library git_history = Inr git_history
   \<and> is_argsort (map (similarity stub_library git_history ''git '') git_history)
        (argsort stub_library (map (similarity stub_library git_history ''git '') git_history))
   \<and> (\<exists>G J hs. fst (predict_next_command stub_library fresh_state ''git '' git_history)
          = Inr (map ml_candidate G @ hs)
       \<and> G = rev (remdups (rev (filter (prefix ''git '') [''git status'', ''python'', ''git status''])))
       \<and> set G = {d \<in> set [''git status'', ''python'', ''git status'']. prefix ''git '' d}
       \<and> hs = map (\<lambda>i. \<lparr>command = git_history ! i,
                         score = similarity stub_library git_history ''git '' (git_history ! i)\<rparr>) J
       \<and> subseq J (last_three (argsort stub_library
                      (map (similarity stub_library git_history ''git '') git_history)))
       \<and> distinct (map (\<lambda>i. git_history ! i) J)
       \<and> (\<lambda>i. git_history ! i) ` set J
           = (\<lambda>i. git_history ! i) ` set (last_three (argsort stub_library
                 (map (similarity stub_library git_history ''git '') git_history)))
             - set G
       \<and> map command hs
           = rev (remdups (rev (filter (\<lambda>c. c \<notin> set G)
               (map (\<lambda>i. git_history ! i)
                 (last_three (argsort stub_library
                    (map (similarity stub_library git_history ''git '') git_history)))))))
       \<and> (\<forall>i \<in> set (last_three (argsort stub_library
                    (map (similarity stub_library git_history ''git '') git_history))).
             git_history ! i \<notin> set G \<longrightarrow>
             \<lparr>command = git_history ! i,
              score = similarity stub_library git_history ''git '' (git_history ! i)\<rparr> \<in> set hs)
       \<and> sorted (map score hs))"
proof -
  have h1: "git_history \<noteq> []" by (simp add: git_history_def)
  have h2: "generate stub_library ''git '' = Inr [''git status'', ''python'', ''git status'']"
    by (simp add: stub_library_def)
  have h3: "vec_fit stub_library git_history = Inr git_history"
    by (simp add: stub_library_def)
  have h4: "is_argsort (map (similarity stub_library git_history ''git '') git_history)
        (argsort stub_library (map (similarity stub_library git_history ''git '') git_history))"
    by (simp add: stub_library_def git_history_def is_argsort_def argsort_stable_def upt_3)
  note inst = history_appended_ascending[OF h1 h2 h3 h4, of fresh_state]
  show ?thesis
    apply (intro conjI)
    apply (rule h1 h2 h3 h4 inst)+
    done
qed

subsection \<open>Duplicates\<close>

text \<open>
  C2, at the empty history: the model proposes \<open>git status\<close> twice, and the branch of
  the empty history returns both, so two candidates of the returned list share their
  command. This branch does not go through the set \<open>seen\<close> that the other branch uses.
\<close>

theorem empty_history_duplicate_candidates:
  "predict_next_command stub_library fresh_state ''git '' []
     = (Inr [\<lparr>command = ''git status'', score = 0.8\<rparr>, \<lparr>command = ''git status'', score = 0.8\<rparr>],
        fresh_state)
   \<and> \<not> distinct (map command
         [\<lparr>command = ''git status'', score = 0.8\<rparr>, \<lparr>command = ''git status'', score = 0.8\<rparr>])"
  by (simp add: predict_next_command_def stub_library_def ml_candidate_def)

text \<open>
  On a history that is not empty, the commands of the returned list are distinct.
\<close>

lemma nonempty_history_distinct:
  assumes "history \<noteq> []" "generate L ci = Inr outputs" "vec_fit L history = Inr v"
    and "is_argsort (map (similarity L v ci) history)
           (argsort L (map (similarity L v ci) history))"
  shows "\<exists>res. fst (predict_next_command L st ci history) = Inr res \<and> distinct (map command res)"
proof -
  from predict_nonempty_result[OF assms, of st] obtain G J where
    run: "predict_next_command L st ci history =
           (Inr (map ml_candidate G
                 @ map (\<lambda>i. \<lparr>command = history ! i, score = similarity L v ci (history ! i)\<rparr>) J),
            st\<lparr>vectorizer := Some v\<rparr>)"
    and G: "distinct G"
    and J: "distinct (map (\<lambda>i. history ! i) J)"
       "(\<lambda>i. history ! i) ` set J
           = (\<lambda>i. history ! i) ` set (last_three (argsort L (map (similarity L v ci) history))) - set G"
    by blast
  define res where "res = map ml_candidate G
      @ map (\<lambda>i. \<lparr>command = history ! i, score = similarity L v ci (history ! i)\<rparr>) J"
  have cmds: "map command res = G @ map (\<lambda>i. history ! i) J"
    unfolding res_def by (simp add: comp_def ml_candidate_def)
  have "set G \<inter> (\<lambda>i. history ! i) ` set J = {}" using J(2) by auto
  then have "distinct (G @ map (\<lambda>i. history ! i) J)" using G J(1) by simp
  then have "distinct (map command res)" by (simp only: cmds)
  moreover have "fst (predict_next_command L st ci history) = Inr res"
    using run by (simp add: res_def)
  ultimately show ?thesis by blast
qed

subsection \<open>A failing model\<close>

lemma as_strings_map_JStr: "as_strings (map JStr h) = Some h"
  by (induction h) simp_all

lemma predict_call_strings:
  "predict_call L st (JStr ci) (JArr (map JStr history)) = predict_next_command L st ci history"
  by (cases history) (simp_all add: predict_call_def as_strings_map_JStr)

lemma handle_predict_frame:
  "handle_frame L st (predict_frame ci history) =
     (case predict_next_command L st ci history of
        (Inl e, st') \<Rightarrow> (Inl e, st')
      | (Inr predictions, st') \<Rightarrow> (Inr (Some (Predictions predictions)), st'))"
  by (simp add: handle_frame_def predict_frame_def dict_get_def dict_get_default_def
      predict_call_strings)

text \<open>
  C3, as stated, on a model that raises: the method raises too, where a merge without
  the model's candidates would return the three history entries; the session sends an
  error envelope.
\<close>

theorem model_failure_degrades_counterexample:
  "fst (predict_next_command failing_model fresh_state ''git '' git_history)
     = Inl (ModelError ''generation failed'')
   \<and> fst (predict_next_command silent_model fresh_state ''git '' git_history)
     = Inr [\<lparr>command = ''ls'', score = 0\<rparr>, \<lparr>command = ''git commit'', score = 0.5\<rparr>,
            \<lparr>command = ''git status'', score = 0.9\<rparr>]
   \<and> fst (websocket_endpoint failing_model fresh_state [predict_frame ''git '' git_history])
     = [ErrorEnvelope ''generation failed'']"
  by (simp add: predict_next_command_def failing_model_def silent_model_def stub_library_def
      fresh_state_def git_history_def argsort_stable_def last_three_def upt_3
      predict_frame_def handle_frame_def predict_call_def dict_get_def dict_get_default_def)

text \<open>
  C3, amended. If the model raises during predict, the method raises the same exception
  and leaves the state as it was, without scoring the history; the session answers the
  request with one error envelope carrying the exception's text, and handles no later
  frame.
\<close>

theorem model_failure_propagates:
  assumes "generate L ci = Inl e"
  shows "predict_next_command L st ci history = (Inl e, st)
       \<and> websocket_endpoint L st (predict_frame ci history # frs) = ([ErrorEnvelope (str_of e)], st)"
proof -
  have p: "predict_next_command L st ci history = (Inl e, st)"
    using assms by (simp add: predict_next_command_def)
  then have "handle_frame L st (predict_frame ci history) = (Inl e, st)"
    by (simp add: handle_predict_frame)
  with p show ?thesis by simp
qed

theorem model_failure_propagates_witness:
  "generate failing_model ''git '' = Inl (ModelError ''generation failed'')
   \<and> predict_next_command failing_model fresh_state ''git '' git_history
       = (Inl (ModelError ''generation failed''), fresh_state)
   \<and> websocket_endpoint failing_model fresh_state [predict_frame ''git '' git_history]
       = ([ErrorEnvelope ''generation failed''], fresh_state)"
proof -
  have h: "generate failing_model ''git '' = Inl (ModelError ''generation failed'')"
    by (simp add: failing_model_def)
  from model_failure_propagates[OF h, of fresh_state git_history "[]"] h
  show ?thesis by simp
qed

subsection \<open>The session loop\<close>

text \<open>
  C4, at the frame \<open>{"type": "unknown"}\<close>: neither branch of the loop body is taken,
  nothing is sent, and the loop goes on with the next frame.
\<close>

theorem unknown_type_no_reply:
  "websocket_endpoint L st [unknown_frame] = ([], st)
   \<and> websocket_endpoint L st (unknown_frame # frs) = websocket_endpoint L st frs"
  by (simp add: unknown_frame_def handle_frame_def dict_get_def split: prod.splits)

text \<open>
  C8, as stated, on an invalid frame followed by a record request: the session sends
  one error envelope and stops, the record request is neither stored nor answered;
  alone, the same request is stored and acknowledged.
\<close>

theorem loop_continues_counterexample:
  "websocket_endpoint stub_library fresh_state [Invalid, record_frame ''ls -la'' ''ctx'']
     = ([ErrorEnvelope ''Expecting value''], fresh_state)
   \<and> websocket_endpoint stub_library fresh_state [record_frame ''ls -la'' ''ctx'']
     = ([Recorded], fresh_state\<lparr>command_history := [(JStr ''ls -la'', JStr ''ctx'')]\<rparr>)"
  by (simp add: handle_frame_def record_frame_def record_command_def dict_get_def
      dict_get_default_def stub_library_def fresh_state_def)

text \<open>
  C8, amended. Any exception raised while one frame is processed is caught and
  converted to a single error envelope for that frame; the loop then ends, and the
  frames after it are not processed.
\<close>

theorem exception_ends_session:
  assumes "fst (handle_frame L st fr) = Inl e"
  shows "websocket_endpoint L st (fr # frs)
           = ([ErrorEnvelope (str_of e)], snd (handle_frame L st fr))"
  using assms by (cases "handle_frame L st fr") simp

theorem exception_ends_session_witness:
  "fst (handle_frame stub_library fresh_state Invalid) = Inl JSONDecodeError
   \<and> websocket_endpoint stub_library fresh_state [Invalid, record_frame ''ls -la'' ''ctx'']
       = ([ErrorEnvelope (str_of JSONDecodeError)], snd (handle_frame stub_library fresh_state Invalid))"
proof -
  have h: "fst (handle_frame stub_library fresh_state Invalid) = Inl JSONDecodeError"
    by (simp add: handle_frame_def)
  from exception_ends_session[OF h, of "[record_frame ''ls -la'' ''ctx'']"] h
  show ?thesis by simp
qed

subsection \<open>The candidates of the model\<close>

lemma predict_Inr_shape:
  assumes "generate L ci = Inr outputs"
    and "fst (predict_next_command L st ci history) = Inr res"
  shows "\<exists>G hs. res = map ml_candidate G @ hs
       \<and> set G = set (filter (prefix ci) outputs)
       \<and> (\<forall>c \<in> set hs. command c \<in> set history)"
proof (cases "history = []")
  case True
  with assms have "res = map ml_candidate (filter (prefix ci) outputs) @ []"
    by (simp add: predict_next_command_def)
  then show ?thesis by (intro exI[of _ "filter (prefix ci) outputs"] exI[of _ "[]"]) simp
next
  case False
  define ml where "ml = filter (prefix ci) outputs"
  from ml_loop_result[of ml "[]" "{}"] obtain G where
    G: "ml_loop ml ([], {}) = (map ml_candidate G, set ml)" "set G = set ml" by auto
  obtain v where v: "vec_fit L history = Inr v"
    using False assms by (cases "vec_fit L history") (simp_all add: predict_next_command_def)
  define scores where "scores = map (similarity L v ci) history"
  define idxs where "idxs = last_three (argsort L scores)"
  have run: "fst (predict_next_command L st ci history) =
      (case history_loop history scores idxs (map ml_candidate G, set ml) of
         Inl e \<Rightarrow> Inl e | Inr (combined, seen) \<Rightarrow> Inr combined)"
    using False assms(1) v G(1)
    by (simp add: predict_next_command_def Let_def ml_def[symmetric] scores_def[symmetric]
        idxs_def[symmetric] split: sum.split prod.split)
  obtain seen' where
    "history_loop history scores idxs (map ml_candidate G, set ml) = Inr (res, seen')"
  proof (cases "history_loop history scores idxs (map ml_candidate G, set ml)")
    case (Inl e)
    with run assms(2) show ?thesis by simp
  next
    case (Inr p)
    with run assms(2) have "p = (res, snd p)" by (cases p) simp
    with Inr that show ?thesis by metis
  qed
  from history_loop_Inr[OF this] obtain hs where
    "res = map ml_candidate G @ hs" "\<forall>c \<in> set hs. command c \<in> set history" by blast
  with G(2) show ?thesis unfolding ml_def by blast
qed

text \<open>
  C5. The returned list starts with candidates of the model, each with the score 0.8,
  and these are exactly the outputs that begin with the input; whatever follows them
  is an entry of the history. An output equal to the input is kept.
\<close>

theorem generative_candidates_filtered:
  assumes "generate L ci = Inr outputs"
    and "fst (predict_next_command L st ci history) = Inr res"
  shows "\<exists>G hs. res = map (\<lambda>d. \<lparr>command = d, score = 0.8\<rparr>) G @ hs
       \<and> set G = {d \<in> set outputs. prefix ci d}
       \<and> (\<forall>c \<in> set hs. command c \<in> set history)
       \<and> (ci \<in> set outputs \<longrightarrow> \<lparr>command = ci, score = 0.8\<rparr> \<in> set res)"
proof -
  from predict_Inr_shape[OF assms] obtain G hs where
    r: "res = map ml_candidate G @ hs" "set G = set (filter (prefix ci) outputs)"
       "\<forall>c \<in> set hs. command c \<in> set history" by blast
  have m: "map ml_candidate G = map (\<lambda>d. \<lparr>command = d, score = 0.8\<rparr>) G"
    by (simp add: ml_candidate_def)
  have g: "set G = {d \<in> set outputs. prefix ci d}" using r(2) by simp
  have k: "ci \<in> set outputs \<longrightarrow> \<lparr>command = ci, score = 0.8\<rparr> \<in> set res"
  proof
    assume "ci \<in> set outputs"
    then have "ci \<in> set G" using g by simp
    then have "ml_candidate ci \<in> set (map ml_candidate G)" by simp
    then show "\<lparr>command = ci, score = 0.8\<rparr> \<in> set res"
      using r(1) by (simp add: ml_candidate_def)
  qed
  from r(1) m have "res = map (\<lambda>d. \<lparr>command = d, score = 0.8\<rparr>) G @ hs" by simp
  with g r(3) k show ?thesis by blast
qed

theorem generative_candidates_filtered_witness:
  "generate stub_library ''git status'' = Inr [''git status'', ''python'', ''git status'']
   \<and> fst (predict_next_command stub_library fresh_state ''git status'' git_history)
       = Inr [\<lparr>command = ''git status'', score = 0.8\<rparr>, \<lparr>command = ''ls'', score = 0\<rparr>,
              \<lparr>command = ''git commit'', score = 0.5\<rparr>]
   \<and> (\<exists>G hs. [\<lparr>command = ''git status'', score = 0.8\<rparr>, \<lparr>command = ''ls'', score = 0\<rparr>,
               \<lparr>command = ''git commit'', score = 0.5\<rparr>]
             = map (\<lambda>d. \<lparr>command = d, score = 0.8\<rparr>) G @ hs
        \<and> set G = {d \<in> set [''git status'', ''python'', ''git status'']. prefix ''git status'' d}
        \<and> (\<forall>c \<in> set hs. command c \<in> set git_history)
        \<and> (''git status'' \<in> set [''git status'', ''python'', ''git status''] \<longrightarrow>
             \<lparr>command = ''git status'', score = 0.8\<rparr>
               \<in> set [\<lparr>command = ''git status'', score = 0.8\<rparr>, \<lparr>command = ''ls'', score = 0\<rparr>,
                       \<lparr>command = ''git commit'', score = 0.5\<rparr>]))"
proof -
  have h1: "generate stub_library ''git status'' = Inr [''git status'', ''python'', ''git status'']"
    by (simp add: stub_library_def)
  have h2: "fst (predict_next_command stub_library fresh_state ''git status'' git_history)
       = Inr [\<lparr>command = ''git status'', score = 0.8\<rparr>, \<lparr>command = ''ls'', score = 0\<rparr>,
              \<lparr>command = ''git commit'', score = 0.5\<rparr>]"
    by (simp add: predict_next_command_def stub_library_def fresh_state_def git_history_def
        argsort_stable_def last_three_def ml_candidate_def upt_3)
  from generative_candidates_filtered[OF h1 h2] h1 h2 show ?thesis by blast
qed

text \<open>
  C6. On the empty history the method returns the outputs that begin with the input,
  each with the score 0.8, and leaves the vectorizer as it was; the result is the same
  whatever the vectorizer and argsort would do.
\<close>

theorem empty_history_generative_only:
  assumes "generate L ci = Inr outputs"
  shows "predict_next_command L st ci []
           = (Inr (map (\<lambda>d. \<lparr>command = d, score = 0.8\<rparr>) (filter (prefix ci) outputs)), st)
       \<and> predict_next_command (L\<lparr>vec_fit := f, similarity := s, argsort := a\<rparr>) st ci []
           = predict_next_command L st ci []"
  using assms by (simp add: predict_next_command_def ml_candidate_def[abs_def])

theorem empty_history_generative_only_witness:
  "generate stub_library ''git '' = Inr [''git status'', ''python'', ''git status'']
   \<and> predict_next_command stub_library fresh_state ''git '' []
       = (Inr (map (\<lambda>d. \<lparr>command = d, score = 0.8\<rparr>)
                (filter (prefix ''git '') [''git status'', ''python'', ''git status''])), fresh_state)
   \<and> predict_next_command
        (stub_library\<lparr>vec_fit := (\<lambda>h. Inl (VectorizerError ''empty vocabulary'')),
                      similarity := (\<lambda>v q d. 1), argsort := (\<lambda>xs. [])\<rparr>) fresh_state ''git '' []
       = predict_next_command stub_library fresh_state ''git '' []"
proof -
  have h: "generate stub_library ''git '' = Inr [''git status'', ''python'', ''git status'']"
    by (simp add: stub_library_def)
  from empty_history_generative_only[OF h, of fresh_state] h
  show ?thesis by simp
qed

subsection \<open>Determinism\<close>

text \<open>
  C9. With the libraries fixed, the returned list depends on the input and the history
  only, not on the state left by earlier calls: a second call with the same arguments
  returns the same list.
\<close>

theorem predict_deterministic:
  "fst (predict_next_command L st ci history) = fst (predict_next_command L st' ci history)
   \<and> fst (predict_next_command L (snd (predict_next_command L st ci history)) ci history)
       = fst (predict_next_command L st ci history)"
proof -
  have indep: "fst (predict_next_command L s ci history) = fst (predict_next_command L s' ci history)"
    for s s' :: "'a state"
    by (simp add: predict_next_command_def Let_def split: sum.splits prod.splits)
  show ?thesis using indep[of st st'] indep[of "snd (predict_next_command L st ci history)" st]
    by simp
qed

subsection \<open>Recording a command\<close>

lemma handle_record_request:
  assumes "dict_get request ''type'' = Some (JStr ''record'')"
    and "dict_get request ''command'' = Some cmd"
  shows "handle_frame L st (Parsed (JObj request)) =
     (case record_command L st cmd (dict_get_default request ''context'' (JStr [])) of
        (Inl e, st') \<Rightarrow> (Inl e, st')
      | (Inr u, st') \<Rightarrow> (Inr (Some Recorded), st'))"
  using assms by (simp add: handle_frame_def)

lemma record_command_cases:
  "(\<exists>e. record_command L st cmd ctx = (Inl e, st))
   \<or> (record_command L st cmd ctx
         = (Inr (), st\<lparr>command_history := command_history st @ [(cmd, ctx)]\<rparr>)
       \<and> db_fault L (command_history st) (cmd, ctx) = None)"
  by (cases "db_fault L (command_history st) (cmd, ctx)") (simp_all add: record_command_def)

text \<open>
  C7. For a record request, when the insert fails the session sends an error envelope
  with the failure's text, sends no acknowledgement and leaves the table as it was; the
  acknowledgement \<open>recorded\<close> is sent only when the insert has succeeded and the row
  is in the table.
\<close>

theorem record_failure_surfaced:
  assumes "dict_get request ''type'' = Some (JStr ''record'')"
    and "dict_get request ''command'' = Some cmd"
    and "ctx = dict_get_default request ''context'' (JStr [])"
  shows "(fst (record_command L st cmd ctx) = Inl e \<longrightarrow>
            websocket_endpoint L st (Parsed (JObj request) # frs) = ([ErrorEnvelope (str_of e)], st))
       \<and> (Recorded \<in> set (fst (websocket_endpoint L st [Parsed (JObj request)])) \<longrightarrow>
            db_fault L (command_history st) (cmd, ctx) = None
            \<and> command_history (snd (websocket_endpoint L st [Parsed (JObj request)]))
                = command_history st @ [(cmd, ctx)])"
proof -
  note h = handle_record_request[OF assms(1,2), of L st, folded assms(3)]
  from record_command_cases[of L st cmd ctx] show ?thesis
  proof
    assume "\<exists>e. record_command L st cmd ctx = (Inl e, st)"
    then obtain e' where e': "record_command L st cmd ctx = (Inl e', st)" by blast
    with h have "handle_frame L st (Parsed (JObj request)) = (Inl e', st)" by simp
    with e' show ?thesis by simp
  next
    assume ok: "record_command L st cmd ctx
         = (Inr (), st\<lparr>command_history := command_history st @ [(cmd, ctx)]\<rparr>)
       \<and> db_fault L (command_history st) (cmd, ctx) = None"
    with h have "handle_frame L st (Parsed (JObj request))
        = (Inr (Some Recorded), st\<lparr>command_history := command_history st @ [(cmd, ctx)]\<rparr>)"
      by simp
    with ok show ?thesis by simp
  qed
qed

theorem record_failure_surfaced_witness:
  "dict_get [(''type'', JStr ''record''), (''command'', JStr ''ls -la''), (''context'', JStr ''ctx'')] ''type''
      = Some (JStr ''record'')
   \<and> dict_get [(''type'', JStr ''record''), (''command'', JStr ''ls -la''), (''context'', JStr ''ctx'')] ''command''
      = Some (JStr ''ls -la'')
   \<and> fst (record_command failing_database fresh_state (JStr ''ls -la'') (JStr ''ctx''))
      = Inl (DatabaseError ''database is locked'')
   \<and> websocket_endpoint failing_database fresh_state [record_frame ''ls -la'' ''ctx'']
      = ([ErrorEnvelope ''database is locked''], fresh_state)
   \<and> Recorded \<in> set (fst (websocket_endpoint stub_library fresh_state [record_frame ''ls -la'' ''ctx'']))
   \<and> db_fault stub_library (command_history fresh_state) (JStr ''ls -la'', JStr ''ctx'') = None
   \<and> command_history (snd (websocket_endpoint stub_library fresh_state [record_frame ''ls -la'' ''ctx'']))
      = command_history fresh_state @ [(JStr ''ls -la'', JStr ''ctx'')]"
proof -
  let ?req = "[(''type'', JStr ''record''), (''command'', JStr ''ls -la''), (''context'', JStr ''ctx'')]"
  have h1: "dict_get ?req ''type'' = Some (JStr ''record'')" by (simp add: dict_get_def)
  have h2: "dict_get ?req ''command'' = Some (JStr ''ls -la'')" by (simp add: dict_get_def)
  have h3: "JStr ''ctx'' = dict_get_default ?req ''context'' (JStr [])"
    by (simp add: dict_get_def dict_get_default_def)
  have f: "fst (record_command failing_database fresh_state (JStr ''ls -la'') (JStr ''ctx''))
      = Inl (DatabaseError ''database is locked'')"
    by (simp add: record_command_def failing_database_def)
  have r: "Recorded \<in> set (fst (websocket_endpoint stub_library fresh_state [record_frame ''ls -la'' ''ctx'']))"
    by (simp add: handle_frame_def record_frame_def record_command_def dict_get_def
      dict_get_default_def stub_library_def fresh_state_def)
  from record_failure_surfaced[OF h1 h2 h3, of failing_database fresh_state
          "DatabaseError ''database is locked''" "[]"]
       record_failure_surfaced[OF h1 h2 h3, of stub_library fresh_state]
       h1 h2 f r
  show ?thesis by (simp add: record_frame_def)
qed

subsection \<open>How many history entries, and which\<close>

text \<open>
  C10. On a history that is not empty, at most three history entries are appended, each
  with its own similarity as score. When the history has three entries or fewer, every
  entry that is not already a candidate of the model is appended, whatever its
  similarity: there is no threshold, and an entry of similarity 0 is returned.
\<close>

theorem history_at_most_three:
  assumes "history \<noteq> []" "generate L ci = Inr outputs" "vec_fit L history = Inr v"
    and "is_argsort (map (similarity L v ci) history)
           (argsort L (map (similarity L v ci) history))"
  shows "\<exists>G hs. fst (predict_next_command L st ci history) = Inr (map ml_candidate G @ hs)
       \<and> set G = {d \<in> set outputs. prefix ci d}
       \<and> length hs \<le> 3
       \<and> (\<forall>c \<in> set hs. command c \<in> set history \<and> score c = similarity L v ci (command c))
       \<and> (length history \<le> 3 \<longrightarrow>
            (\<forall>d \<in> set history. d \<notin> set G \<longrightarrow>
               \<lparr>command = d, score = similarity L v ci d\<rparr> \<in> set hs))"
proof -
  define scores where "scores = map (similarity L v ci) history"
  define cand where "cand = (\<lambda>i. \<lparr>command = history ! i, score = similarity L v ci (history ! i)\<rparr>)"
  from predict_nonempty_result[OF assms, of st] obtain G J where
    run: "predict_next_command L st ci history =
           (Inr (map ml_candidate G @ map cand J), st\<lparr>vectorizer := Some v\<rparr>)"
    and G: "set G = {d \<in> set outputs. prefix ci d}"
    and J: "subseq J (last_three (argsort L scores))"
    and img: "(\<lambda>i. history ! i) ` set J
           = (\<lambda>i. history ! i) ` set (last_three (argsort L scores)) - set G"
    unfolding scores_def cand_def by blast
  have ok: "is_argsort scores (argsort L scores)" using assms(4) by (simp add: scores_def)
  have "length J \<le> length (last_three (argsort L scores))"
    using J by (rule list_emb_length)
  then have len: "length (map cand J) \<le> 3"
    using length_last_three[of "argsort L scores"] by simp
  have "set J \<subseteq> set (last_three (argsort L scores))" using J by (rule subseq_subset)
  also have "\<dots> \<subseteq> set (argsort L scores)" by (rule subseq_subset[OF subseq_last_three])
  finally have inrange: "\<forall>i \<in> set J. i < length history"
    using is_argsort_set[OF ok] by (auto simp: scores_def)
  have from_history:
    "\<forall>c \<in> set (map cand J). command c \<in> set history \<and> score c = similarity L v ci (command c)"
    using inrange by (auto simp: cand_def)
  have all: "length history \<le> 3 \<longrightarrow>
      (\<forall>d \<in> set history. d \<notin> set G \<longrightarrow> \<lparr>command = d, score = similarity L v ci d\<rparr> \<in> set (map cand J))"
  proof (intro impI ballI)
    fix d
    assume short: "length history \<le> 3" and d: "d \<in> set history" "d \<notin> set G"
    have "length (argsort L scores) \<le> 3"
      using is_argsort_length[OF ok] short by (simp add: scores_def)
    then have "last_three (argsort L scores) = argsort L scores" by (rule last_three_short)
    then have "set (last_three (argsort L scores)) = {0..<length history}"
      using is_argsort_set[OF ok] by (simp add: scores_def)
    moreover from d(1) obtain i where "i < length history" "history ! i = d"
      by (auto simp: in_set_conv_nth)
    ultimately have "d \<in> (\<lambda>i. history ! i) ` set (last_three (argsort L scores))" by force
    with d(2) img have "d \<in> (\<lambda>i. history ! i) ` set J" by simp
    then obtain j where "j \<in> set J" "history ! j = d" by auto
    then have "cand j = \<lparr>command = d, score = similarity L v ci d\<rparr>" by (simp add: cand_def)
    with \<open>j \<in> set J\<close> show "\<lparr>command = d, score = similarity L v ci d\<rparr> \<in> set (map cand J)"
      by force
  qed
  from run have "fst (predict_next_command L st ci history) = Inr (map ml_candidate G @ map cand J)"
    by simp
  with G len from_history all show ?thesis by blast
qed

theorem history_at_most_three_witness:
  "git_history \<noteq> [] \<and> generate stub_library ''git '' = Inr [''git status'', ''python'', ''git status'']
   \<and> vec_fit stub_library git_history = Inr git_history
   \<and> is_argsort (map (similarity stub_library git_history ''git '') git_history)
        (argsort stub_library (map (similarity stub_library git_history ''git '') git_history))
   \<and> length git_history \<le> 3 \<and> ''ls'' \<in> set git_history
   \<and> similarity stub_library git_history ''git '' ''ls'' = 0
   \<and> (\<exists>res. fst (predict_next_command stub_library fresh_state ''git '' git_history) = Inr res
          \<and> \<lparr>command = ''ls'', score = 0\<rparr> \<in> set res)"
proof -
  have h1: "git_history \<noteq> []" by (simp add: git_history_def)
  have h2: "generate stub_library ''git '' = Inr [''git status'', ''python'', ''git status'']"
    by (simp add: stub_library_def)
  have h3: "vec_fit stub_library git_history = Inr git_history"
    by (simp add: stub_library_def)
  have h4: "is_argsort (map (similarity stub_library git_history ''git '') git_history)
        (argsort stub_library (map (similarity stub_library git_history ''git '') git_history))"
    by (simp add: stub_library_def git_history_def is_argsort_def argsort_stable_def upt_3)
  have h5: "length git_history \<le> 3" "''ls'' \<in> set git_history" by (simp_all add: git_history_def)
  have h6: "similarity stub_library git_history ''git '' ''ls'' = 0" by (simp add: stub_library_def)
  from history_at_most_three[OF h1 h2 h3 h4, of fresh_state] obtain G hs where
    r: "fst (predict_next_command stub_library fresh_state ''git '' git_history)
          = Inr (map ml_candidate G @ hs)"
    and G: "set G = {d \<in> set [''git status'', ''python'', ''git status'']. prefix ''git '' d}"
    and a: "length git_history \<le> 3 \<longrightarrow>
            (\<forall>d \<in> set git_history. d \<notin> set G \<longrightarrow>
               \<lparr>command = d, score = similarity stub_library git_history ''git '' d\<rparr> \<in> set hs)"
    by blast
  have "''ls'' \<notin> set G" using G by simp
  with a h5 h6 have "\<lparr>command = ''ls'', score = 0\<rparr> \<in> set hs" by force
  with r have "\<exists>res. fst (predict_next_command stub_library fresh_state ''git '' git_history) = Inr res
          \<and> \<lparr>command = ''ls'', score = 0\<rparr> \<in> set res" by simp
  with h1 h2 h3 h4 h5 h6 show ?thesis by blast
qed

end
